theory Spec2Isabelle
  imports Complex_Main
begin

section \<open>The host file system\<close>

text \<open>
  The directory handle of web-fs wraps the browser's File System API. The host side is
  modelled as a finite tree of entries; the order of a directory's child list is the
  order in which the host enumerates it. Strings are byte lists (UTF-8), so the
  box-drawing characters of the tree renderer are three bytes each.
\<close>

datatype kind = KFile | KDirectory

datatype entry = File string | Directory string "entry list"

fun ename :: "entry \<Rightarrow> string" where
  "ename (File n) = n"
| "ename (Directory n cs) = n"

fun ekind :: "entry \<Rightarrow> kind" where
  "ekind (File n) = KFile"
| "ekind (Directory n cs) = KDirectory"

fun echildren :: "entry \<Rightarrow> entry list" where
  "echildren (File n) = []"
| "echildren (Directory n cs) = cs"

text \<open>
  A FileSystemHandle is a reference to one entry of the host tree. Two files of the same
  name in different directories are different handles, so a handle carries its location:
  the names on the way from the directory the wrapper holds (\<open>this._handle\<close>, location
  \<open>[]\<close>) down to the entry itself, together with the entry it refers to.
\<close>

record handle =
  loc :: "string list"
  ent :: entry

definition hname :: "handle \<Rightarrow> string" where
  "hname h = ename (ent h)"

definition hkind :: "handle \<Rightarrow> kind" where
  "hkind h = ekind (ent h)"

text \<open>\<open>cd.values()\<close> collected by \<open>Array.fromAsync\<close>: the child handles in host order.\<close>

definition dir_values :: "handle \<Rightarrow> handle list" where
  "dir_values cd = map (\<lambda>c. \<lparr>loc = loc cd @ [ename c], ent = c\<rparr>) (echildren (ent cd))"

definition this_handle :: "entry \<Rightarrow> handle" where
  "this_handle fsroot = \<lparr>loc = [], ent = fsroot\<rparr>"

section \<open>Permission gate (WebFsHandle)\<close>

datatype perm_mode = Read | ReadWrite

datatype perm_state = Granted | Denied | Prompt

text \<open>The permission broker of the host: the two calls a handle offers.\<close>

record broker =
  queryPermission :: "handle \<Rightarrow> perm_mode \<Rightarrow> perm_state"
  requestPermission :: "handle \<Rightarrow> perm_mode \<Rightarrow> perm_state"

definition verifyPermission :: "broker \<Rightarrow> handle \<Rightarrow> perm_mode \<Rightarrow> bool" where
  "verifyPermission b h m =
     (if queryPermission b h m = Granted then True
      else if requestPermission b h m = Granted then True
      else False)"

datatype web_fs_handle = WebFsFileHandle handle | WebFsDirectoryHandle handle

text \<open>The mode parameter defaults to \<open>'read'\<close> when it is undefined.\<close>

definition mode_or_default :: "perm_mode option \<Rightarrow> perm_mode" where
  "mode_or_default m = (case m of None \<Rightarrow> Read | Some x \<Rightarrow> x)"

definition WebFsFileHandle_create :: "broker \<Rightarrow> handle \<Rightarrow> perm_mode option \<Rightarrow> web_fs_handle option" where
  "WebFsFileHandle_create b h m =
     (if \<not> verifyPermission b h (mode_or_default m) then None else Some (WebFsFileHandle h))"

definition WebFsDirectoryHandle_create :: "broker \<Rightarrow> handle \<Rightarrow> perm_mode option \<Rightarrow> web_fs_handle option" where
  "WebFsDirectoryHandle_create b h m =
     (if \<not> verifyPermission b h (mode_or_default m) then None else Some (WebFsDirectoryHandle h))"

section \<open>Filters\<close>

datatype filter_type = FNone | FFile | FDir | FAll

definition toFilterType :: "bool \<Rightarrow> bool \<Rightarrow> filter_type" where
  "toFilterType file dir =
     (if file \<and> dir then FAll
      else if \<not> file \<and> \<not> dir then FNone
      else if file then FFile else FDir)"

definition priv_filterEntry :: "filter_type \<Rightarrow> handle list \<Rightarrow> handle list" where
  "priv_filterEntry type entries =
     (if type = FNone then []
      else filter (\<lambda>entry.
             if type = FAll then True
             else if type = FFile then hkind entry = KFile
             else hkind entry = KDirectory) entries)"

section \<open>Depth-bounded tree builder\<close>

datatype tree_result = TreeResult (handle: handle) (children: "tree_result list option")

function priv_tree :: "filter_type \<Rightarrow> real \<Rightarrow> real \<Rightarrow> handle \<Rightarrow> tree_result list" where
  "priv_tree type maxDepth depth cd =
     (if type = FNone then []
      else map (\<lambda>entry.
             if hkind entry = KFile \<or> depth = maxDepth
             then TreeResult entry None
             else TreeResult entry (Some (priv_tree type maxDepth (depth + 1) entry)))
           (priv_filterEntry type (dir_values cd)))"
  by pat_completeness auto
termination
proof (relation "measure (\<lambda>(type, maxDepth, depth, cd). size (ent cd))")
  show "wf (measure (\<lambda>(type, maxDepth, depth, cd). size (ent cd)))" by simp
next
  fix type :: filter_type and maxDepth depth :: real and cd x :: handle
  assume "x \<in> set (priv_filterEntry type (dir_values cd))"
  then have "ent x \<in> set (echildren (ent cd))"
    by (auto simp: priv_filterEntry_def dir_values_def split: if_splits)
  then have "size (ent x) < size (ent cd)"
    by (cases "ent cd") (auto simp: less_Suc_eq_le size_list_estimation')
  then show "((type, maxDepth, depth + 1, x), (type, maxDepth, depth, cd))
               \<in> measure (\<lambda>(type, maxDepth, depth, cd). size (ent cd))"
    by simp
qed

fun priv_flat :: "tree_result list \<Rightarrow> handle list" where
  "priv_flat [] = []"
| "priv_flat (TreeResult h c # rest) =
     h # (case c of None \<Rightarrow> [] | Some cs \<Rightarrow> priv_flat cs) @ priv_flat rest"

section \<open>Strings\<close>

text \<open>\<open>s.split(c)\<close> for a one-character separator: never empty, \<open>''.split('/') = ['']\<close>.\<close>

fun split_str :: "char \<Rightarrow> string \<Rightarrow> string list" where
  "split_str c [] = [[]]"
| "split_str c (x # xs) =
     (if x = c then [] # split_str c xs
      else (case split_str c xs of
              [] \<Rightarrow> [[x]]
            | y # ys \<Rightarrow> (x # y) # ys))"

text \<open>\<open>xs.join(sep)\<close>.\<close>

fun join_str :: "string \<Rightarrow> string list \<Rightarrow> string" where
  "join_str sep [] = []"
| "join_str sep [x] = x"
| "join_str sep (x # y # ys) = x @ sep @ join_str sep (y # ys)"

section \<open>Listing operations\<close>

text \<open>
  \<open>WebFsEntryListOptions\<close>: every field may be left out; the destructuring defaults are
  \<open>file = true\<close>, \<open>dir = true\<close>, \<open>depth = 1\<close>. The depth is a JavaScript number, so it
  need not be whole; it is modelled as a real (the depth counter of the builder and of
  the renderer only takes the values 1, 2, 3, ..., on which the arithmetic of numbers
  is exact).
\<close>

record entry_list_options =
  o_file :: "bool option"
  o_dir :: "bool option"
  o_depth :: "real option"

definition opt_file :: "entry_list_options \<Rightarrow> bool" where
  "opt_file opts = (case o_file opts of None \<Rightarrow> True | Some v \<Rightarrow> v)"

definition opt_dir :: "entry_list_options \<Rightarrow> bool" where
  "opt_dir opts = (case o_dir opts of None \<Rightarrow> True | Some v \<Rightarrow> v)"

definition opt_depth :: "entry_list_options \<Rightarrow> real" where
  "opt_depth opts = (case o_depth opts of None \<Rightarrow> 1 | Some v \<Rightarrow> v)"

definition names :: "handle \<Rightarrow> entry_list_options \<Rightarrow> string list" where
  "names this opts =
     (if \<not> opt_file opts \<and> \<not> opt_dir opts then []
      else map hname
             (priv_flat (priv_tree (toFilterType (opt_file opts) (opt_dir opts)) (opt_depth opts) 1 this)))"

text \<open>
  \<open>list\<close>: each flattened entry is wrapped by the \<open>create\<close> of its kind (default mode),
  and the entries whose permission gate fails are dropped.
\<close>

definition list_entries :: "broker \<Rightarrow> handle \<Rightarrow> entry_list_options \<Rightarrow> web_fs_handle list" where
  "list_entries b this opts =
     (if \<not> opt_file opts \<and> \<not> opt_dir opts then []
      else List.map_filter
             (\<lambda>entry. if hkind entry = KFile then WebFsFileHandle_create b entry None
                      else WebFsDirectoryHandle_create b entry None)
             (priv_flat (priv_tree (toFilterType (opt_file opts) (opt_dir opts)) (opt_depth opts) 1 this)))"

definition tree :: "handle \<Rightarrow> entry_list_options \<Rightarrow> tree_result" where
  "tree this opts =
     TreeResult this
       (Some (priv_tree (toFilterType (opt_file opts) (opt_dir opts)) (opt_depth opts) 1 this))"

section \<open>Tree renderer\<close>







section \<open>Glob traversal engine\<close>

text \<open>
  The pattern matcher (\<open>micromatch.isMatch candidate pattern\<close>) is an external library;
  the engine takes it as the parameter \<open>isMatch\<close>. A call of the matcher either answers
  \<open>true\<close> or \<open>false\<close> or throws (micromatch throws a TypeError when the pattern is the
  empty string), so its result is a sum. The engine reports, next to the files it found,
  the directories it enumerated (one entry for each call of \<open>cd.values()\<close>, in call
  order).
\<close>

datatype error = TypeError | NotFoundError | TypeMismatchError | NotAllowedError

type_synonym matcher = "string \<Rightarrow> string \<Rightarrow> error + bool"

record glob_out =
  enumerated :: "handle list"
  found :: "handle list"

text \<open>
  \<open>xs.filter(p)\<close> with a callback that may throw: the elements are tested in order and
  the first throw ends the filter.
\<close>

fun filterE :: "('a \<Rightarrow> error + bool) \<Rightarrow> 'a list \<Rightarrow> error + 'a list" where
  "filterE p [] = Inr []"
| "filterE p (x # xs) =
     (case p x of
        Inl e \<Rightarrow> Inl e
      | Inr keep \<Rightarrow>
          (case filterE p xs of
             Inl e \<Rightarrow> Inl e
           | Inr ys \<Rightarrow> Inr (if keep then x # ys else ys)))"

text \<open>The \<open>for\<close> loops over directories: results are appended in order, the first throw ends the loop.\<close>

fun collect :: "(error + glob_out) list \<Rightarrow> error + glob_out" where
  "collect [] = Inr \<lparr>enumerated = [], found = []\<rparr>"
| "collect (Inl e # rs) = Inl e"
| "collect (Inr r # rs) =
     (case collect rs of
        Inl e \<Rightarrow> Inl e
      | Inr r' \<Rightarrow> Inr \<lparr>enumerated = enumerated r @ enumerated r', found = found r @ found r'\<rparr>)"

text \<open>
  \<open>patterns[patternIndex]\<close> is \<open>undefined\<close> when the index is outside the list: the test
  against \<open>'**'\<close> is then false and the matcher, called with an undefined pattern for
  the first directory, throws a TypeError. Nothing in \<open>_glob\<close> or \<open>glob\<close> catches: a throw of
  the matcher ends the whole search.
\<close>

function priv_glob ::
  "matcher \<Rightarrow> string list \<Rightarrow> nat \<Rightarrow> handle \<Rightarrow> string \<Rightarrow> error + glob_out" where
  "priv_glob isMatch patterns patternIndex cd path =
     (let entries = dir_values cd;
          isLast = (int patternIndex = int (length patterns) - 1);
          dirs = priv_filterEntry FDir entries;
          files = priv_filterEntry FFile entries
      in if isLast then
           (case filterE (\<lambda>entry. isMatch (path @ hname entry) (join_str ''/'' patterns)) files of
              Inl e \<Rightarrow> Inl e
            | Inr matchedFiles \<Rightarrow> Inr \<lparr>enumerated = [cd], found = matchedFiles\<rparr>)
         else if patternIndex < length patterns \<and> patterns ! patternIndex = ''**'' then
           (case priv_glob isMatch patterns (nat (int (length patterns) - 1)) cd path of
              Inl e \<Rightarrow> Inl e
            | Inr r0 \<Rightarrow>
                (case collect (map (\<lambda>dir. priv_glob isMatch patterns patternIndex dir
                                            (path @ hname dir @ ''/'')) dirs) of
                   Inl e \<Rightarrow> Inl e
                 | Inr r \<Rightarrow> Inr \<lparr>enumerated = cd # enumerated r0 @ enumerated r,
                                  found = found r0 @ found r\<rparr>))
         else if patternIndex < length patterns then
           (case filterE (\<lambda>entry. isMatch (hname entry) (patterns ! patternIndex)) dirs of
              Inl e \<Rightarrow> Inl e
            | Inr matchedDirs \<Rightarrow>
                (case collect (map (\<lambda>dir. priv_glob isMatch patterns (patternIndex + 1) dir
                                            (path @ hname dir @ ''/'')) matchedDirs) of
                   Inl e \<Rightarrow> Inl e
                 | Inr r \<Rightarrow> Inr \<lparr>enumerated = cd # enumerated r, found = found r\<rparr>))
         else if dirs = [] then Inr \<lparr>enumerated = [cd], found = []\<rparr>
         else Inl TypeError)"
  by pat_completeness auto
termination
proof (relation "measures [\<lambda>(isMatch, patterns, patternIndex, cd, path). size (ent cd),
                           \<lambda>(isMatch, patterns, patternIndex, cd, path).
                              if int patternIndex = int (length patterns) - 1 then 0 else 1]",
       goal_cases)
  case 1
  show ?case by simp
next
  case (2 isMatch patterns patternIndex cd path)
  then show ?case by auto
next
  case (3 isMatch patterns patternIndex cd path entries isLast dirs files r0 dir)
  then have "ent dir \<in> set (echildren (ent cd))"
    by (auto simp: priv_filterEntry_def dir_values_def split: if_splits)
  then have "size (ent dir) < size (ent cd)"
    by (cases "ent cd") (auto simp: less_Suc_eq_le size_list_estimation')
  then show ?case by simp
next
  case (4 isMatch patterns patternIndex cd path entries isLast dirs files matchedDirs dir)
  have kept: "set ys \<subseteq> set xs" if "filterE p xs = Inr ys"
    for p :: "handle \<Rightarrow> error + bool" and xs ys
    using that by (induction xs arbitrary: ys) (auto split: sum.splits if_splits)
  from 4 kept have "dir \<in> set dirs" by blast
  with 4 have "ent dir \<in> set (echildren (ent cd))"
    by (auto simp: priv_filterEntry_def dir_values_def split: if_splits)
  then have "size (ent dir) < size (ent cd)"
    by (cases "ent cd") (auto simp: less_Suc_eq_le size_list_estimation')
  then show ?case by simp
qed

text \<open>
  \<open>glob\<close>: the empty pattern returns at once; otherwise the pattern is split on \<open>'/'\<close>,
  the engine runs from \<open>this._handle\<close> with index 0 and the empty path, and every file
  found is wrapped (default mode), the ones whose permission gate fails being dropped.
  A throw of the engine is not caught: the call is rejected with that error.
\<close>

record glob_result =
  host_enumerations :: "handle list"
  matches :: "web_fs_handle list"

definition glob ::
  "broker \<Rightarrow> matcher \<Rightarrow> handle \<Rightarrow> string \<Rightarrow> error + glob_result" where
  "glob b isMatch this pattern =
     (if pattern = '''' then Inr \<lparr>host_enumerations = [], matches = []\<rparr>
      else
        (let patterns = split_str CHR ''/'' pattern
         in case priv_glob isMatch patterns 0 this '''' of
              Inl e \<Rightarrow> Inl e
            | Inr r \<Rightarrow>
                Inr \<lparr>host_enumerations = enumerated r,
                     matches = List.map_filter (\<lambda>entry. WebFsFileHandle_create b entry None) (found r)\<rparr>))"

section \<open>Path resolver\<close>

text \<open>
  \<open>path.resolve\<close> of node:path (POSIX flavour, as the browser polyfill provides it),
  for one argument: the argument, and the working directory when the argument is not
  absolute, are concatenated; the result is normalised segment by segment (empty
  segments and \<open>.\<close> vanish, \<open>..\<close> removes the segment before it and cannot climb above the
  root of an absolute path).
\<close>

definition normalize_step :: "bool \<Rightarrow> string list \<Rightarrow> string \<Rightarrow> string list" where
  "normalize_step allowAboveRoot res seg =
     (if seg = '''' \<or> seg = ''.'' then res
      else if seg = ''..'' then
        (if res \<noteq> [] \<and> last res \<noteq> ''..'' then butlast res
         else if allowAboveRoot then res @ [''..'']
         else res)
      else res @ [seg])"

definition normalizeString :: "string \<Rightarrow> bool \<Rightarrow> string" where
  "normalizeString p allowAboveRoot =
     join_str ''/'' (foldl (normalize_step allowAboveRoot) [] (split_str CHR ''/'' p))"

definition is_absolute :: "string \<Rightarrow> bool" where
  "is_absolute p = (case p of [] \<Rightarrow> False | c # cs \<Rightarrow> c = CHR ''/'')"

definition path_resolve :: "string \<Rightarrow> string \<Rightarrow> string" where
  "path_resolve cwd p =
     (let r1 = (if p = '''' then '''' else p @ ''/'');
          abs1 = (p \<noteq> '''' \<and> is_absolute p);
          r2 = (if abs1 \<or> cwd = '''' then r1 else cwd @ ''/'' @ r1);
          abs2 = (if abs1 \<or> cwd = '''' then abs1 else is_absolute cwd);
          n = normalizeString r2 (\<not> abs2)
      in if abs2 then ''/'' @ n
         else if n \<noteq> '''' then n else ''.'')"

text \<open>
  Modelled from the spec: the working directory that relative paths are resolved
  against (\<open>process.cwd()\<close> of the runtime, not part of the sources) is the synthetic
  root \<open>/\<close> of section 4.2.
\<close>

definition process_cwd :: string where
  "process_cwd = ''/''"

text \<open>\<open>path.resolve(p).split(path.sep).slice(1)\<close>.\<close>

definition resolved_names :: "string \<Rightarrow> string list" where
  "resolved_names p = drop 1 (split_str CHR ''/'' (path_resolve process_cwd p))"

text \<open>
  \<open>names.pop()\<close>: the last element and the list without it; \<open>undefined\<close> (here \<open>None\<close>) on
  an empty list, which stays empty.
\<close>

definition pop :: "string list \<Rightarrow> string option \<times> string list" where
  "pop xs = (if xs = [] then (None, []) else (Some (last xs), butlast xs))"

text \<open>An \<open>undefined\<close> name handed to the host is converted to the string \<open>undefined\<close>.\<close>

definition to_name :: "string option \<Rightarrow> string" where
  "to_name n = (case n of None \<Rightarrow> ''undefined'' | Some s \<Rightarrow> s)"

section \<open>Host operations on directories\<close>

text \<open>
  The host tree below \<open>this._handle\<close> is the state: every operation that can change it
  takes the current root entry and returns the new one. A handle finds its directory in
  the current tree by its location.

  A valid file name of the File System standard is not empty, is not \<open>.\<close> or \<open>..\<close> and
  contains no \<open>/\<close>; the host rejects any other name with a TypeError. Access is granted
  by the permission broker: creating and removing ask for \<open>readwrite\<close>, looking up
  queries \<open>read\<close>.
\<close>

definition valid_file_name :: "string \<Rightarrow> bool" where
  "valid_file_name n = (n \<noteq> '''' \<and> n \<noteq> ''.'' \<and> n \<noteq> ''..'' \<and> CHR ''/'' \<notin> set n)"

definition find_child :: "string \<Rightarrow> entry list \<Rightarrow> entry option" where
  "find_child n cs = find (\<lambda>c. ename c = n) cs"

fun subtree :: "entry \<Rightarrow> string list \<Rightarrow> entry option" where
  "subtree e [] = Some e"
| "subtree (File n) (x # xs) = None"
| "subtree (Directory n cs) (x # xs) =
     (case find_child x cs of None \<Rightarrow> None | Some c \<Rightarrow> subtree c xs)"

text \<open>Replace the first element that satisfies \<open>P\<close>.\<close>

fun map_first :: "('a \<Rightarrow> bool) \<Rightarrow> ('a \<Rightarrow> 'a) \<Rightarrow> 'a list \<Rightarrow> 'a list" where
  "map_first P f [] = []"
| "map_first P f (x # xs) = (if P x then f x # xs else x # map_first P f xs)"

text \<open>Change the child list of the directory at a location.\<close>

fun modify_at :: "string list \<Rightarrow> (entry list \<Rightarrow> entry list) \<Rightarrow> entry \<Rightarrow> entry" where
  "modify_at xs f (File n) = File n"
| "modify_at [] f (Directory n cs) = Directory n (f cs)"
| "modify_at (x # xs) f (Directory n cs) =
     Directory n (map_first (\<lambda>c. ename c = x) (\<lambda>c. modify_at xs f c) cs)"

definition access_granted :: "broker \<Rightarrow> handle \<Rightarrow> perm_mode \<Rightarrow> bool" where
  "access_granted b h m =
     (if m = ReadWrite then requestPermission b h ReadWrite = Granted
      else queryPermission b h Read = Granted)"

definition getDirectoryHandle ::
  "broker \<Rightarrow> entry \<Rightarrow> handle \<Rightarrow> string \<Rightarrow> bool \<Rightarrow> (error + handle) \<times> entry" where
  "getDirectoryHandle b fsroot h n create =
     (if \<not> valid_file_name n then (Inl TypeError, fsroot)
      else if \<not> access_granted b h (if create then ReadWrite else Read) then (Inl NotAllowedError, fsroot)
      else (case subtree fsroot (loc h) of
              None \<Rightarrow> (Inl NotFoundError, fsroot)
            | Some (File m) \<Rightarrow> (Inl NotFoundError, fsroot)
            | Some (Directory m cs) \<Rightarrow>
                (case find_child n cs of
                   Some (Directory k ds) \<Rightarrow> (Inr \<lparr>loc = loc h @ [n], ent = Directory k ds\<rparr>, fsroot)
                 | Some (File k) \<Rightarrow> (Inl TypeMismatchError, fsroot)
                 | None \<Rightarrow>
                     if create
                     then (Inr \<lparr>loc = loc h @ [n], ent = Directory n []\<rparr>,
                           modify_at (loc h) (\<lambda>cs. cs @ [Directory n []]) fsroot)
                     else (Inl NotFoundError, fsroot))))"

definition getFileHandle ::
  "broker \<Rightarrow> entry \<Rightarrow> handle \<Rightarrow> string \<Rightarrow> bool \<Rightarrow> (error + handle) \<times> entry" where
  "getFileHandle b fsroot h n create =
     (if \<not> valid_file_name n then (Inl TypeError, fsroot)
      else if \<not> access_granted b h (if create then ReadWrite else Read) then (Inl NotAllowedError, fsroot)
      else (case subtree fsroot (loc h) of
              None \<Rightarrow> (Inl NotFoundError, fsroot)
            | Some (File m) \<Rightarrow> (Inl NotFoundError, fsroot)
            | Some (Directory m cs) \<Rightarrow>
                (case find_child n cs of
                   Some (File k) \<Rightarrow> (Inr \<lparr>loc = loc h @ [n], ent = File k\<rparr>, fsroot)
                 | Some (Directory k ds) \<Rightarrow> (Inl TypeMismatchError, fsroot)
                 | None \<Rightarrow>
                     if create
                     then (Inr \<lparr>loc = loc h @ [n], ent = File n\<rparr>,
                           modify_at (loc h) (\<lambda>cs. cs @ [File n]) fsroot)
                     else (Inl NotFoundError, fsroot))))"

text \<open>\<open>removeEntry(name, {recursive: true})\<close>: a directory goes with everything below it.\<close>

definition removeEntry :: "broker \<Rightarrow> entry \<Rightarrow> handle \<Rightarrow> string \<Rightarrow> (error + unit) \<times> entry" where
  "removeEntry b fsroot h n =
     (if \<not> valid_file_name n then (Inl TypeError, fsroot)
      else if \<not> access_granted b h ReadWrite then (Inl NotAllowedError, fsroot)
      else (case subtree fsroot (loc h) of
              None \<Rightarrow> (Inl NotFoundError, fsroot)
            | Some (File m) \<Rightarrow> (Inl NotFoundError, fsroot)
            | Some (Directory m cs) \<Rightarrow>
                (case find_child n cs of
                   None \<Rightarrow> (Inl NotFoundError, fsroot)
                 | Some c \<Rightarrow> (Inr (), modify_at (loc h) (\<lambda>cs. filter (\<lambda>c. ename c \<noteq> n) cs) fsroot))))"

section \<open>Directory-chain walker and the path operations\<close>

text \<open>The loop of \<open>_dirByPath\<close>, with the loop variable \<open>handle\<close> as an argument.\<close>

fun dirByPath_loop ::
  "broker \<Rightarrow> entry \<Rightarrow> handle \<Rightarrow> string list \<Rightarrow> bool \<Rightarrow> (error + handle) \<times> entry" where
  "dirByPath_loop b fsroot h [] create = (Inr h, fsroot)"
| "dirByPath_loop b fsroot h (directoryName # rest) create =
     (case getDirectoryHandle b fsroot h directoryName create of
        (Inl e, root') \<Rightarrow> (Inl e, root')
      | (Inr h', root') \<Rightarrow> dirByPath_loop b root' h' rest create)"

definition priv_dirByPath ::
  "broker \<Rightarrow> entry \<Rightarrow> string list \<Rightarrow> bool \<Rightarrow> (error + handle) \<times> entry" where
  "priv_dirByPath b fsroot directoryNames create =
     dirByPath_loop b fsroot (this_handle fsroot) directoryNames create"

text \<open>
  \<open>WebFsGetFileOptions\<close> and \<open>WebFsGetDirectoryOptions\<close>: both fields may be left out, and
  so may the whole options object. An undefined \<open>create\<close> counts as \<open>false\<close>.
\<close>

record get_options =
  g_create :: "bool option"
  g_mode :: "perm_mode option"

definition opt_create :: "get_options option \<Rightarrow> bool" where
  "opt_create options =
     (case options of None \<Rightarrow> False
      | Some opts \<Rightarrow> (case g_create opts of None \<Rightarrow> False | Some c \<Rightarrow> c))"

definition opt_mode :: "get_options option \<Rightarrow> perm_mode option" where
  "opt_mode options = (case options of None \<Rightarrow> None | Some opts \<Rightarrow> g_mode opts)"

text \<open>
  Each operation returns its result and the host tree it leaves behind; the \<open>catch\<close>
  turns every error of the host into \<open>undefined\<close> (\<open>None\<close>) or \<open>false\<close>, keeping whatever the
  host had already changed.
\<close>

definition "file" :: "broker \<Rightarrow> entry \<Rightarrow> string \<Rightarrow> get_options option \<Rightarrow> web_fs_handle option \<times> entry" where
  "file b fsroot filePath options =
     (let (fileName, directoryNames) = pop (resolved_names filePath)
      in if fileName = Some '''' then (None, fsroot)
         else (case priv_dirByPath b fsroot directoryNames (opt_create options) of
                 (Inl e, root1) \<Rightarrow> (None, root1)
               | (Inr dirHandle, root1) \<Rightarrow>
                   (case getFileHandle b root1 dirHandle (to_name fileName) (opt_create options) of
                      (Inl e, root2) \<Rightarrow> (None, root2)
                    | (Inr fileHandle, root2) \<Rightarrow>
                        (WebFsFileHandle_create b fileHandle (opt_mode options), root2))))"

definition dir :: "broker \<Rightarrow> entry \<Rightarrow> string \<Rightarrow> get_options option \<Rightarrow> web_fs_handle option \<times> entry" where
  "dir b fsroot dirPath options =
     (let directoryNames = resolved_names dirPath
      in if length directoryNames = 1 \<and> directoryNames ! 0 = '''' then (None, fsroot)
         else (case priv_dirByPath b fsroot directoryNames (opt_create options) of
                 (Inl e, root1) \<Rightarrow> (None, root1)
               | (Inr dirHandle, root1) \<Rightarrow>
                   (WebFsDirectoryHandle_create b dirHandle (opt_mode options), root1)))"

text \<open>\<open>createFile\<close> and \<open>createDir\<close> pass the caller's mode on and set \<open>create: true\<close>.\<close>

definition createFile :: "broker \<Rightarrow> entry \<Rightarrow> string \<Rightarrow> perm_mode option \<Rightarrow> web_fs_handle option \<times> entry" where
  "createFile b fsroot filePath mode =
     file b fsroot filePath (Some \<lparr>g_create = Some True, g_mode = mode\<rparr>)"

definition createDir :: "broker \<Rightarrow> entry \<Rightarrow> string \<Rightarrow> perm_mode option \<Rightarrow> web_fs_handle option \<times> entry" where
  "createDir b fsroot dirPath mode =
     dir b fsroot dirPath (Some \<lparr>g_create = Some True, g_mode = mode\<rparr>)"

text \<open>
  \<open>remove\<close>: the walker is given the segments before the last one; the host's
  \<open>removeEntry\<close> is then called on the directory it reached, with \<open>entryPath\<close> as the
  name.
\<close>

definition remove :: "broker \<Rightarrow> entry \<Rightarrow> string \<Rightarrow> bool \<times> entry" where
  "remove b fsroot entryPath =
     (let (lastEntryName, entryNames) = pop (resolved_names entryPath)
      in if lastEntryName = Some '''' then (False, fsroot)
         else (case priv_dirByPath b fsroot entryNames False of
                 (Inl e, root1) \<Rightarrow> (False, root1)
               | (Inr dirHandle, root1) \<Rightarrow>
                   (case removeEntry b root1 dirHandle entryPath of
                      (Inl e, root2) \<Rightarrow> (False, root2)
                    | (Inr u, root2) \<Rightarrow> (True, root2))))"

section \<open>A reference pattern matcher\<close>

text \<open>
  The claims about concrete patterns need a concrete matcher. \<open>ref_matches\<close> covers the
  part of glob syntax they use: a pattern and a candidate are compared segment by
  segment; inside a segment \<open>*\<close> stands for any run of characters and \<open>?\<close> for one
  character; a segment \<open>**\<close> stands for any number of segments, none included; a leading
  \<open>!\<close> negates the rest of the pattern. It is a reference for evaluating the engine at
  concrete inputs, not a model of the whole library (no braces, character classes or
  rule for names that start with a dot).
\<close>

fun seg_match :: "string \<Rightarrow> string \<Rightarrow> bool" where
  "seg_match [] [] = True"
| "seg_match [] (c # cs) = False"
| "seg_match (p # ps) [] = (p = CHR ''*'' \<and> seg_match ps [])"
| "seg_match (p # ps) (c # cs) =
     (if p = CHR ''*'' then seg_match ps (c # cs) \<or> seg_match (p # ps) cs
      else (p = CHR ''?'' \<or> p = c) \<and> seg_match ps cs)"

fun segs_match :: "string list \<Rightarrow> string list \<Rightarrow> bool" where
  "segs_match [] [] = True"
| "segs_match [] (s # ss) = False"
| "segs_match (p # ps) [] = (p = ''**'' \<and> segs_match ps [])"
| "segs_match (p # ps) (s # ss) =
     (if p = ''**'' then segs_match ps (s # ss) \<or> segs_match (p # ps) ss
      else seg_match p s \<and> segs_match ps ss)"

definition ref_matches :: "string \<Rightarrow> string \<Rightarrow> bool" where
  "ref_matches candidate pattern =
     (case pattern of
        [] \<Rightarrow> False
      | c # rest \<Rightarrow>
          if c = CHR ''!''
          then \<not> segs_match (split_str CHR ''/'' rest) (split_str CHR ''/'' candidate)
          else segs_match (split_str CHR ''/'' pattern) (split_str CHR ''/'' candidate))"

text \<open>The call of the reference matcher: it throws on the empty pattern, as micromatch does.\<close>

definition ref_isMatch :: matcher where
  "ref_isMatch candidate pattern =
     (if pattern = '''' then Inl TypeError else Inr (ref_matches candidate pattern))"

text \<open>A broker that grants everything: the state after the user has allowed access.\<close>

definition grant_all :: broker where
  "grant_all = \<lparr>queryPermission = (\<lambda>h m. Granted), requestPermission = (\<lambda>h m. Granted)\<rparr>"

section \<open>Notions used to state the properties\<close>

text \<open>The host handle inside a wrapper, and the \<open>/\<close>-joined path of a handle.\<close>

definition raw_handle :: "web_fs_handle \<Rightarrow> handle" where
  "raw_handle w = (case w of WebFsFileHandle h \<Rightarrow> h | WebFsDirectoryHandle h \<Rightarrow> h)"

definition rel_path :: "handle \<Rightarrow> string" where
  "rel_path h = join_str ''/'' (loc h)"

text \<open>
  Everything below a directory: each entry with the names that lead to it from that
  directory (its own name last), in pre-order.
\<close>

fun below_entry :: "string list \<Rightarrow> entry \<Rightarrow> (string list \<times> handle) list" where
  "below_entry l (File n) = []"
| "below_entry l (Directory n cs) =
     concat (map (\<lambda>c. ([ename c], \<lparr>loc = l @ [ename c], ent = c\<rparr>)
                        # map (\<lambda>(ns, h). (ename c # ns, h)) (below_entry (l @ [ename c]) c)) cs)"

definition below :: "handle \<Rightarrow> (string list \<times> handle) list" where
  "below cd = below_entry (loc cd) (ent cd)"

definition descendants :: "handle \<Rightarrow> handle list" where
  "descendants cd = map snd (below cd)"

text \<open>The nodes of a tree-builder result, each with its distance from the root.\<close>

fun levels :: "nat \<Rightarrow> tree_result list \<Rightarrow> (nat \<times> tree_result) list" where
  "levels k [] = []"
| "levels k (TreeResult h c # rest) =
     (k, TreeResult h c) # (case c of None \<Rightarrow> [] | Some cs \<Rightarrow> levels (Suc k) cs) @ levels k rest"

text \<open>
  The directory chains the glob engine follows: \<open>descends isMatch patterns i ds\<close> tells
  whether the engine, standing at index \<open>i\<close>, walks down the directories named \<open>ds\<close> and
  then tests the files it finds there. \<open>answers isMatch p\<close> says that the matcher does
  not throw on the pattern \<open>p\<close>, whatever the candidate.
\<close>

definition answers :: "matcher \<Rightarrow> string \<Rightarrow> bool" where
  "answers isMatch p = (\<forall>c. \<exists>b. isMatch c p = Inr b)"

fun descends :: "matcher \<Rightarrow> string list \<Rightarrow> nat \<Rightarrow> string list \<Rightarrow> bool" where
  "descends isMatch patterns i [] =
     (int i = int (length patterns) - 1 \<or> (i < length patterns \<and> patterns ! i = ''**''))"
| "descends isMatch patterns i (d # ds) =
     (int i \<noteq> int (length patterns) - 1 \<and> i < length patterns \<and>
      (if patterns ! i = ''**'' then descends isMatch patterns i ds
       else isMatch d (patterns ! i) = Inr True \<and> descends isMatch patterns (i + 1) ds))"

text \<open>
  The files below a directory whose path from that directory satisfies \<open>A\<close> and whose
  chain of directories satisfies \<open>Q\<close>.
\<close>

definition files_where :: "(string list \<Rightarrow> bool) \<Rightarrow> (string \<Rightarrow> bool) \<Rightarrow> handle \<Rightarrow> handle list" where
  "files_where Q A cd =
     map snd (filter (\<lambda>(ns, h). hkind h = KFile \<and> A (join_str ''/'' ns) \<and> Q (butlast ns)) (below cd))"

section \<open>Basic facts\<close>

lemma dir_values_Directory [simp]:
  "dir_values \<lparr>loc = l, ent = Directory n cs\<rparr> = map (\<lambda>c. \<lparr>loc = l @ [ename c], ent = c\<rparr>) cs"
  by (simp add: dir_values_def)

lemma dir_values_File [simp]: "dir_values \<lparr>loc = l, ent = File n\<rparr> = []"
  by (simp add: dir_values_def)

text \<open>The three branches of the glob engine, as conditional equations.\<close>

lemma priv_glob_last:
  "int i = int (length ps) - 1 \<Longrightarrow>
   priv_glob M ps i cd path =
     (case filterE (\<lambda>entry. M (path @ hname entry) (join_str ''/'' ps))
             (priv_filterEntry FFile (dir_values cd)) of
        Inl e \<Rightarrow> Inl e
      | Inr matchedFiles \<Rightarrow> Inr \<lparr>enumerated = [cd], found = matchedFiles\<rparr>)"
  by (subst priv_glob.simps) (simp add: Let_def)

lemma priv_glob_star:
  "int i \<noteq> int (length ps) - 1 \<Longrightarrow> i < length ps \<Longrightarrow> ps ! i = ''**'' \<Longrightarrow>
   priv_glob M ps i cd path =
     (case priv_glob M ps (nat (int (length ps) - 1)) cd path of
        Inl e \<Rightarrow> Inl e
      | Inr r0 \<Rightarrow>
          (case collect (map (\<lambda>dir. priv_glob M ps i dir (path @ hname dir @ ''/''))
                             (priv_filterEntry FDir (dir_values cd))) of
             Inl e \<Rightarrow> Inl e
           | Inr r \<Rightarrow> Inr \<lparr>enumerated = cd # enumerated r0 @ enumerated r,
                            found = found r0 @ found r\<rparr>))"
  by (subst priv_glob.simps) (simp add: Let_def)

lemma priv_glob_seg:
  "int i \<noteq> int (length ps) - 1 \<Longrightarrow> i < length ps \<Longrightarrow> ps ! i \<noteq> ''**'' \<Longrightarrow>
   priv_glob M ps i cd path =
     (case filterE (\<lambda>entry. M (hname entry) (ps ! i))
             (priv_filterEntry FDir (dir_values cd)) of
        Inl e \<Rightarrow> Inl e
      | Inr matchedDirs \<Rightarrow>
          (case collect (map (\<lambda>dir. priv_glob M ps (i + 1) dir (path @ hname dir @ ''/''))
                             matchedDirs) of
             Inl e \<Rightarrow> Inl e
           | Inr r \<Rightarrow> Inr \<lparr>enumerated = cd # enumerated r, found = found r\<rparr>))"
  by (subst priv_glob.simps) (simp add: Let_def)

text \<open>Path resolution at the inputs used below (working directory \<open>/\<close>).\<close>

lemma resolved_dot: "resolved_names ''.'' = ['''']"
  by (simp add: resolved_names_def path_resolve_def process_cwd_def is_absolute_def
        normalizeString_def normalize_step_def)

lemma resolved_slash: "resolved_names ''/'' = ['''']"
  by (simp add: resolved_names_def path_resolve_def process_cwd_def is_absolute_def
        normalizeString_def normalize_step_def)

lemma resolved_empty: "resolved_names '''' = ['''']"
  by (simp add: resolved_names_def path_resolve_def process_cwd_def is_absolute_def
        normalizeString_def normalize_step_def)

lemma resolved_sub_b: "resolved_names ''sub/b.txt'' = [''sub'', ''b.txt'']"
  by (simp add: resolved_names_def path_resolve_def process_cwd_def is_absolute_def
        normalizeString_def normalize_step_def)

section \<open>Removal by path\<close>

text \<open>
  Claim C1 says that \<open>remove\<close> succeeds on every relative path whose parent chain and
  terminal entry exist, the entry being removed from its parent by its terminal name.
  The code does not do that for a path of more than one segment: it walks to the
  parent, but then hands the host the whole \<open>entryPath\<close> instead of the terminal name.
  The host rejects a name that contains \<open>/\<close>, the error is caught, and \<open>remove\<close> returns
  \<open>false\<close>. Here the root holds \<open>sub/b.txt\<close>, every permission is granted, and
  \<open>remove('sub/b.txt')\<close> returns \<open>false\<close> and leaves the tree as it was.
\<close>

theorem remove_nested_path_fails:
  "remove grant_all (Directory ''root'' [Directory ''sub'' [File ''b.txt'']]) ''sub/b.txt''
   = (False, Directory ''root'' [Directory ''sub'' [File ''b.txt'']])"
  by (simp add: remove_def resolved_sub_b pop_def priv_dirByPath_def this_handle_def
        getDirectoryHandle_def valid_file_name_def access_granted_def grant_all_def
        find_child_def removeEntry_def)

text \<open>
  The sibling operation \<open>file\<close> resolves the same path and finds the file, because it
  passes the terminal name to the host.
\<close>

lemma file_nested_path_found:
  "file grant_all (Directory ''root'' [Directory ''sub'' [File ''b.txt'']]) ''sub/b.txt'' None
   = (Some (WebFsFileHandle \<lparr>loc = [''sub'', ''b.txt''], ent = File ''b.txt''\<rparr>),
      Directory ''root'' [Directory ''sub'' [File ''b.txt'']])"
  by (simp add: file_def resolved_sub_b pop_def priv_dirByPath_def this_handle_def
        getDirectoryHandle_def getFileHandle_def valid_file_name_def access_granted_def
        grant_all_def find_child_def to_name_def opt_create_def opt_mode_def
        WebFsFileHandle_create_def verifyPermission_def mode_or_default_def)

text \<open>
  The same happens for every path that contains a \<open>/\<close>: looking directories up changes
  nothing, and the host never accepts the path as a name.
\<close>

lemma getDirectoryHandle_lookup_keeps_root:
  "snd (getDirectoryHandle b fsroot h n False) = fsroot"
  by (simp add: getDirectoryHandle_def split: option.splits entry.splits)

lemma dirByPath_loop_lookup_keeps_root:
  "snd (dirByPath_loop b fsroot h ns False) = fsroot"
proof (induction ns arbitrary: h)
  case Nil
  show ?case by simp
next
  case (Cons n ns)
  obtain res root' where g: "getDirectoryHandle b fsroot h n False = (res, root')"
    by (cases "getDirectoryHandle b fsroot h n False")
  from getDirectoryHandle_lookup_keeps_root[of b fsroot h n] g have r: "root' = fsroot" by simp
  show ?case
  proof (cases res)
    case (Inl e)
    with g r show ?thesis by simp
  next
    case (Inr h')
    with g r Cons.IH[of h'] show ?thesis by simp
  qed
qed

lemma remove_path_with_slash_fails:
  assumes "CHR ''/'' \<in> set entryPath"
  shows "remove b fsroot entryPath = (False, fsroot)"
proof -
  obtain lastEntryName entryNames where p: "pop (resolved_names entryPath) = (lastEntryName, entryNames)"
    by (cases "pop (resolved_names entryPath)")
  obtain res root1 where w: "priv_dirByPath b fsroot entryNames False = (res, root1)"
    by (cases "priv_dirByPath b fsroot entryNames False")
  from dirByPath_loop_lookup_keeps_root[of b fsroot "this_handle fsroot" entryNames] w
  have r1: "root1 = fsroot" by (simp add: priv_dirByPath_def)
  from assms have inv: "\<not> valid_file_name entryPath" by (simp add: valid_file_name_def)
  show ?thesis
  proof (cases res)
    case (Inl e)
    with p w r1 show ?thesis by (simp add: remove_def)
  next
    case (Inr dirHandle)
    with p w r1 inv show ?thesis by (simp add: remove_def removeEntry_def)
  qed
qed

section \<open>Paths that resolve to the fsroot\<close>

text \<open>
  Claim C7: for each of the paths \<open>.\<close>, \<open>/\<close> and the empty string, the file getter and the
  directory getter return \<open>undefined\<close> whatever the options (so for any create flag, and
  for \<open>createFile\<close> and \<open>createDir\<close> too), and \<open>remove\<close> returns \<open>false\<close>; the host tree is
  not touched. Resolution leaves the single empty segment in all three cases.
\<close>

theorem root_paths_rejected:
  "file b fsroot ''.'' options = (None, fsroot) \<and> dir b fsroot ''.'' options = (None, fsroot)
     \<and> remove b fsroot ''.'' = (False, fsroot)
   \<and> file b fsroot ''/'' options = (None, fsroot) \<and> dir b fsroot ''/'' options = (None, fsroot)
     \<and> remove b fsroot ''/'' = (False, fsroot)
   \<and> file b fsroot '''' options = (None, fsroot) \<and> dir b fsroot '''' options = (None, fsroot)
     \<and> remove b fsroot '''' = (False, fsroot)
   \<and> createFile b fsroot ''.'' m = (None, fsroot) \<and> createDir b fsroot ''.'' m = (None, fsroot)
   \<and> createFile b fsroot ''/'' m = (None, fsroot) \<and> createDir b fsroot ''/'' m = (None, fsroot)
   \<and> createFile b fsroot '''' m = (None, fsroot) \<and> createDir b fsroot '''' m = (None, fsroot)"
  by (simp add: file_def dir_def remove_def createFile_def createDir_def pop_def
        resolved_dot resolved_slash resolved_empty)

section \<open>Tree rendering\<close>


section \<open>Glob: the empty pattern and a recursive pattern\<close>

text \<open>
  Claim C9: for the empty pattern \<open>glob\<close> returns the empty result and has enumerated no
  directory, whatever the broker, the matcher and the directory are.
\<close>

theorem glob_empty_pattern:
  "glob b isMatch this '''' = Inr \<lparr>host_enumerations = [], matches = []\<rparr>"
  by (simp add: glob_def)

lemma ts_pattern_split: "split_str CHR ''/'' ''**/*.ts'' = [''**'', ''*.ts'']"
  by simp

lemma ts_match_root: "ref_isMatch ''a.ts'' ''**/*.ts'' = Inr True"
  by (simp add: ref_isMatch_def ref_matches_def)

lemma ts_match_src: "ref_isMatch ''src/a.ts'' ''**/*.ts'' = Inr True"
  by (simp add: ref_isMatch_def ref_matches_def)

lemma ts_match_lib: "ref_isMatch ''src/lib/b.ts'' ''**/*.ts'' = Inr True"
  by (simp add: ref_isMatch_def ref_matches_def)

lemma ts_no_match_md: "ref_isMatch ''src/c.md'' ''**/*.ts'' = Inr False"
  by (simp add: ref_isMatch_def ref_matches_def)

text \<open>
  Claim C4: over the tree with \<open>src/a.ts\<close>, \<open>src/lib/b.ts\<close>, \<open>src/c.md\<close> and \<open>a.ts\<close> at the
  root, the pattern \<open>**/*.ts\<close> returns the files \<open>a.ts\<close>, \<open>src/a.ts\<close> and \<open>src/lib/b.ts\<close>, each
  once, and not \<open>src/c.md\<close>: the recursive segment stands for zero, one and two
  directory levels. (Reference matcher, all permissions granted; each match is shown
  with its path.)
\<close>

theorem glob_recursive_ts:
  "map_sum id (\<lambda>r. map (\<lambda>w. (rel_path (raw_handle w), w)) (matches r))
     (glob grant_all ref_isMatch
        (this_handle (Directory ''root''
           [Directory ''src'' [File ''a.ts'', Directory ''lib'' [File ''b.ts''], File ''c.md''],
            File ''a.ts'']))
        ''**/*.ts'')
   = Inr [(''a.ts'', WebFsFileHandle \<lparr>loc = [''a.ts''], ent = File ''a.ts''\<rparr>),
          (''src/a.ts'', WebFsFileHandle \<lparr>loc = [''src'', ''a.ts''], ent = File ''a.ts''\<rparr>),
          (''src/lib/b.ts'', WebFsFileHandle \<lparr>loc = [''src'', ''lib'', ''b.ts''], ent = File ''b.ts''\<rparr>)]"
  by (simp add: glob_def ts_pattern_split priv_glob_last priv_glob_star this_handle_def
        priv_filterEntry_def hkind_def hname_def ts_match_root ts_match_src ts_match_lib
        ts_no_match_md List.map_filter_def WebFsFileHandle_create_def verifyPermission_def
        grant_all_def mode_or_default_def rel_path_def raw_handle_def del: priv_glob.simps)

section \<open>Depth-bounded tree builder: depth and filters\<close>

declare priv_tree.simps [simp del]

lemma levels_append: "levels k (xs @ ys) = levels k xs @ levels k ys"
  by (induction k xs rule: levels.induct) auto

lemma set_levels_map:
  "set (levels k (map f xs)) = (\<Union>x \<in> set xs. set (levels k [f x]))"
proof (induction xs)
  case Nil
  show ?case by simp
next
  case (Cons x xs)
  have "levels k (map f (x # xs)) = levels k ([f x] @ map f xs)" by simp
  also have "\<dots> = levels k [f x] @ levels k (map f xs)" by (rule levels_append)
  finally show ?case using Cons by simp
qed

lemma priv_flat_append: "priv_flat (xs @ ys) = priv_flat xs @ priv_flat ys"
  by (induction xs rule: priv_flat.induct) auto

lemma set_priv_flat_map:
  "set (priv_flat (map f xs)) = (\<Union>x \<in> set xs. set (priv_flat [f x]))"
proof (induction xs)
  case Nil
  show ?case by simp
next
  case (Cons x xs)
  have "priv_flat (map f (x # xs)) = priv_flat ([f x] @ map f xs)" by simp
  also have "\<dots> = priv_flat [f x] @ priv_flat (map f xs)" by (rule priv_flat_append)
  finally show ?case using Cons by simp
qed

lemma loc_dir_values: "h \<in> set (dir_values cd) \<Longrightarrow> loc h = loc cd @ [hname h]"
  by (auto simp: dir_values_def hname_def)

lemma filterEntry_subset: "h \<in> set (priv_filterEntry type es) \<Longrightarrow> h \<in> set es"
  by (auto simp: priv_filterEntry_def split: if_splits)

lemma tree_levels_bound:
  "maxDepth = real n \<Longrightarrow> depth = real j \<Longrightarrow> j \<le> n \<Longrightarrow>
   (k, nd) \<in> set (levels j (priv_tree type maxDepth depth cd)) \<Longrightarrow>
   k \<le> n \<and> (k = n \<longrightarrow> children nd = None)
     \<and> length (loc (handle nd)) + j = length (loc cd) + k + 1"
proof (induction type maxDepth depth cd arbitrary: j k nd rule: priv_tree.induct)
  case (1 type maxDepth depth cd)
  from "1.prems"(4) have ne: "type \<noteq> FNone"
    by (auto simp: priv_tree.simps[of type maxDepth depth cd] split: if_splits)
  let ?node = "\<lambda>entry. if hkind entry = KFile \<or> depth = maxDepth then TreeResult entry None
          else TreeResult entry (Some (priv_tree type maxDepth (depth + 1) entry))"
  from "1.prems"(4) ne obtain e where e: "e \<in> set (priv_filterEntry type (dir_values cd))"
    and kn: "(k, nd) \<in> set (levels j [?node e])"
    by (auto simp: priv_tree.simps[of type maxDepth depth cd] set_levels_map)
  from e have le: "loc e = loc cd @ [hname e]"
    by (auto dest: filterEntry_subset loc_dir_values)
  show ?case
  proof (cases "hkind e = KFile \<or> depth = maxDepth")
    case True
    with kn have "k = j" "nd = TreeResult e None" by auto
    with "1.prems" le show ?thesis by auto
  next
    case False
    with "1.prems" have jn: "j \<noteq> n" by auto
    from False kn consider (top) "k = j" "nd = TreeResult e (Some (priv_tree type maxDepth (depth + 1) e))"
      | (deep) "(k, nd) \<in> set (levels (Suc j) (priv_tree type maxDepth (depth + 1) e))"
      by auto
    then show ?thesis
    proof cases
      case top
      with "1.prems" jn le show ?thesis by auto
    next
      case deep
      from "1.prems"(2) have d: "depth + 1 = real (Suc j)" by simp
      from jn "1.prems"(3) have sj: "Suc j \<le> n" by simp
      from "1.IH"[OF ne e False "1.prems"(1) d sj deep]
      have "k \<le> n \<and> (k = n \<longrightarrow> children nd = None)
        \<and> length (loc (handle nd)) + Suc j = length (loc e) + k + 1" .
      with le show ?thesis by simp
    qed
  qed
qed

text \<open>
  Claim C5, as amended. For every directory, every filter and every whole-number depth
  limit \<open>n \<ge> 1\<close>, a node of the tree builder's output at distance \<open>k\<close> from the root (the
  direct children are at distance 1) has \<open>k \<le> n\<close>, and a node at distance exactly \<open>n\<close> has
  no child list (\<open>children\<close> is undefined), whatever the directory behind it contains.
  The distance in the output is the distance in the host tree: the node's handle lies
  \<open>k\<close> names below the directory the builder started from.
\<close>

theorem tree_depth_bound:
  assumes "1 \<le> n" and "(k, nd) \<in> set (levels 1 (priv_tree type (real n) 1 cd))"
  shows "k \<le> n \<and> (k = n \<longrightarrow> children nd = None)
          \<and> length (loc (handle nd)) = length (loc cd) + k"
proof -
  have "(1::real) = real (1::nat)" by simp
  from tree_levels_bound[OF refl this assms(1) assms(2)] show ?thesis by simp
qed

text \<open>
  An instance: with depth limit 2 the directory \<open>sub/deep\<close>, which holds a file, is a node
  at distance 2 and has no child list.
\<close>

theorem tree_depth_bound_witness:
  "(1::nat) \<le> 2
   \<and> (2, TreeResult \<lparr>loc = [''sub'', ''deep''], ent = Directory ''deep'' [File ''x.txt'']\<rparr> None)
       \<in> set (levels 1 (priv_tree FAll (real 2) 1
              (this_handle (Directory ''root'' [Directory ''sub'' [Directory ''deep'' [File ''x.txt'']]]))))
   \<and> children (TreeResult \<lparr>loc = [''sub'', ''deep''], ent = Directory ''deep'' [File ''x.txt'']\<rparr> None) = None
   \<and> length (loc (handle (TreeResult \<lparr>loc = [''sub'', ''deep''], ent = Directory ''deep'' [File ''x.txt'']\<rparr> None)))
       = length (loc (this_handle (Directory ''root'' [Directory ''sub'' [Directory ''deep'' [File ''x.txt'']]]))) + 2"
  using tree_depth_bound[of 2 2
      "TreeResult \<lparr>loc = [''sub'', ''deep''], ent = Directory ''deep'' [File ''x.txt'']\<rparr> None"
      FAll "this_handle (Directory ''root'' [Directory ''sub'' [Directory ''deep'' [File ''x.txt'']]])"]
  by (simp add: priv_tree.simps this_handle_def priv_filterEntry_def hkind_def)

text \<open>
  Claim C5 as stated fails: it speaks of every limit \<open>d \<ge> 1\<close>, and the limit is a number
  that need not be whole. The builder stops only where the depth counter equals the
  limit, so with the limit 3/2 it never stops: below \<open>root\<close> with \<open>sub/deep/x.txt\<close> the
  directory \<open>sub/deep\<close> is a node at distance 2, beyond the limit, and has a child list.
\<close>

theorem tree_fractional_depth_counterexample:
  "(1::real) \<le> 3 / 2
   \<and> (2, TreeResult \<lparr>loc = [''sub'', ''deep''], ent = Directory ''deep'' [File ''x.txt'']\<rparr>
            (Some [TreeResult \<lparr>loc = [''sub'', ''deep'', ''x.txt''], ent = File ''x.txt''\<rparr> None]))
       \<in> set (levels 1 (priv_tree FAll (3 / 2) 1
              (this_handle (Directory ''root'' [Directory ''sub'' [Directory ''deep'' [File ''x.txt'']]]))))
   \<and> \<not> (real 2 \<le> 3 / 2)"
  by (simp add: priv_tree.simps this_handle_def priv_filterEntry_def hkind_def)

lemma flat_parent_in_output:
  "h \<in> set (priv_flat (priv_tree type d dp cd)) \<Longrightarrow>
   h \<in> set (priv_filterEntry type (dir_values cd))
   \<or> (\<exists>p \<in> set (priv_flat (priv_tree type d dp cd)). h \<in> set (priv_filterEntry type (dir_values p)))"
proof (induction type d dp cd arbitrary: h rule: priv_tree.induct)
  case (1 type maxDepth depth cd)
  from "1.prems" have ne: "type \<noteq> FNone"
    by (auto simp: priv_tree.simps[of type maxDepth depth cd] split: if_splits)
  let ?node = "\<lambda>entry. if hkind entry = KFile \<or> depth = maxDepth then TreeResult entry None
          else TreeResult entry (Some (priv_tree type maxDepth (depth + 1) entry))"
  have out: "set (priv_flat (priv_tree type maxDepth depth cd))
      = (\<Union>e \<in> set (priv_filterEntry type (dir_values cd)). set (priv_flat [?node e]))"
    using ne by (simp add: priv_tree.simps[of type maxDepth depth cd] set_priv_flat_map)
  from "1.prems" obtain e where e: "e \<in> set (priv_filterEntry type (dir_values cd))"
    and h: "h \<in> set (priv_flat [?node e])"
    unfolding out by blast
  show ?case
  proof (cases "hkind e = KFile \<or> depth = maxDepth")
    case True
    with h e show ?thesis by auto
  next
    case False
    with h consider (top) "h = e" | (deep) "h \<in> set (priv_flat (priv_tree type maxDepth (depth + 1) e))"
      by auto
    then show ?thesis
    proof cases
      case top
      with e show ?thesis by simp
    next
      case deep
      from False have sub: "set (priv_flat (priv_tree type maxDepth (depth + 1) e)) \<subseteq> set (priv_flat [?node e])"
        by auto
      have ein: "e \<in> set (priv_flat [?node e])" by auto
      from "1.IH"[OF ne e False deep]
      show ?thesis
      proof
        assume "h \<in> set (priv_filterEntry type (dir_values e))"
        with ein e show ?thesis unfolding out by blast
      next
        assume "\<exists>p\<in>set (priv_flat (priv_tree type maxDepth (depth + 1) e)).
                  h \<in> set (priv_filterEntry type (dir_values p))"
        then obtain p where "p \<in> set (priv_flat (priv_tree type maxDepth (depth + 1) e))"
          and hp: "h \<in> set (priv_filterEntry type (dir_values p))" by blast
        with sub have "p \<in> set (priv_flat [?node e])" by blast
        with e hp show ?thesis unfolding out by blast
      qed
    qed
  qed
qed

lemma filterEntry_FDir_kind: "h \<in> set (priv_filterEntry FDir es) \<Longrightarrow> hkind h = KDirectory"
  by (auto simp: priv_filterEntry_def)

lemma filterEntry_FFile_kind: "h \<in> set (priv_filterEntry FFile es) \<Longrightarrow> hkind h = KFile"
  by (auto simp: priv_filterEntry_def)

lemma descendants_of_file: "hkind e = KFile \<Longrightarrow> descendants e = []"
  by (cases "ent e") (auto simp: descendants_def below_def hkind_def)

text \<open>
  Claim C6: with the directory-only filter and any depth limit, every entry of the
  flattened output is a directory (no file appears); it is a child of the starting
  directory or of a directory that is itself in the output, so nothing is reached
  through an entry that the filter removed; and no entry below a removed entry (here:
  below a file) appears.
\<close>

theorem dir_only_prunes:
  assumes "h \<in> set (priv_flat (priv_tree FDir d 1 cd))"
  shows "hkind h = KDirectory
    \<and> (h \<in> set (dir_values cd)
        \<or> (\<exists>p \<in> set (priv_flat (priv_tree FDir d 1 cd)). h \<in> set (dir_values p)))
    \<and> (\<forall>e \<in> set (descendants cd). hkind e = KFile \<longrightarrow> h \<notin> set (descendants e))"
proof -
  from flat_parent_in_output[OF assms]
  have par: "h \<in> set (priv_filterEntry FDir (dir_values cd))
     \<or> (\<exists>p \<in> set (priv_flat (priv_tree FDir d 1 cd)). h \<in> set (priv_filterEntry FDir (dir_values p)))" .
  then have "hkind h = KDirectory" by (auto dest: filterEntry_FDir_kind)
  moreover from par have "h \<in> set (dir_values cd)
        \<or> (\<exists>p \<in> set (priv_flat (priv_tree FDir d 1 cd)). h \<in> set (dir_values p))"
    by (blast dest: filterEntry_subset)
  moreover have "\<forall>e \<in> set (descendants cd). hkind e = KFile \<longrightarrow> h \<notin> set (descendants e)"
    by (simp add: descendants_of_file)
  ultimately show ?thesis by blast
qed


text \<open>
  An instance: below \<open>root\<close> with \<open>a.txt\<close> and \<open>sub\<close> (holding \<open>b.txt\<close> and the directory
  \<open>deep\<close>), depth limit 2, the flattened output is \<open>sub\<close>, \<open>sub/deep\<close>.
\<close>

theorem dir_only_prunes_witness:
  "\<lparr>loc = [''sub'', ''deep''], ent = Directory ''deep'' [File ''c.txt'']\<rparr>
     \<in> set (priv_flat (priv_tree FDir 2 1
           (this_handle (Directory ''root''
              [File ''a.txt'', Directory ''sub'' [File ''b.txt'', Directory ''deep'' [File ''c.txt'']]]))))
   \<and> hkind \<lparr>loc = [''sub'', ''deep''], ent = Directory ''deep'' [File ''c.txt'']\<rparr> = KDirectory
   \<and> priv_flat (priv_tree FDir 2 1
           (this_handle (Directory ''root''
              [File ''a.txt'', Directory ''sub'' [File ''b.txt'', Directory ''deep'' [File ''c.txt'']]])))
       = [\<lparr>loc = [''sub''], ent = Directory ''sub'' [File ''b.txt'', Directory ''deep'' [File ''c.txt'']]\<rparr>,
          \<lparr>loc = [''sub'', ''deep''], ent = Directory ''deep'' [File ''c.txt'']\<rparr>]"
  using dir_only_prunes[of "\<lparr>loc = [''sub'', ''deep''], ent = Directory ''deep'' [File ''c.txt'']\<rparr>" 2
      "this_handle (Directory ''root''
              [File ''a.txt'', Directory ''sub'' [File ''b.txt'', Directory ''deep'' [File ''c.txt'']]])"]
  by (simp add: priv_tree.simps this_handle_def priv_filterEntry_def hkind_def)

lemma map_filter_all_Some:
  "(\<forall>x \<in> set xs. f x = Some (g x)) \<Longrightarrow> List.map_filter f xs = map g xs"
  by (induction xs) (auto simp: List.map_filter_def)

lemma priv_flat_leaves: "priv_flat (map (\<lambda>h. TreeResult h None) xs) = xs"
  by (induction xs) auto

lemma priv_tree_file_only:
  "priv_tree FFile d dp cd = map (\<lambda>h. TreeResult h None) (filter (\<lambda>h. hkind h = KFile) (dir_values cd))"
  by (subst priv_tree.simps) (simp add: priv_filterEntry_def)

text \<open>
  Claim C10: with the file-only filter (\<open>file\<close> true or left out, \<open>dir\<close> false) the tree
  builder returns the direct file children of the directory as leaves, for every depth
  limit; \<open>names\<close> returns their names, \<open>tree\<close> the directory with these leaves, and \<open>list\<close>
  their wrappers, as far as the permission gate lets them pass: all of them when read
  access to the children is granted. Nothing deeper is returned and the depth option
  has no effect.
\<close>

theorem file_only_direct_children:
  assumes "opt_file opts" and "\<not> opt_dir opts"
  shows "priv_tree FFile d 1 cd
           = map (\<lambda>h. TreeResult h None) (filter (\<lambda>h. hkind h = KFile) (dir_values cd))
    \<and> names cd opts = map hname (filter (\<lambda>h. hkind h = KFile) (dir_values cd))
    \<and> tree cd opts
         = TreeResult cd (Some (map (\<lambda>h. TreeResult h None) (filter (\<lambda>h. hkind h = KFile) (dir_values cd))))
    \<and> list_entries b cd opts
         = List.map_filter (\<lambda>h. WebFsFileHandle_create b h None)
             (filter (\<lambda>h. hkind h = KFile) (dir_values cd))
    \<and> ((\<forall>h \<in> set (dir_values cd). verifyPermission b h Read)
         \<longrightarrow> list_entries b cd opts
              = map WebFsFileHandle (filter (\<lambda>h. hkind h = KFile) (dir_values cd)))"
proof -
  from assms have ft: "toFilterType (opt_file opts) (opt_dir opts) = FFile"
    by (simp add: toFilterType_def)
  let ?fs = "filter (\<lambda>h. hkind h = KFile) (dir_values cd)"
  have t: "priv_tree FFile d 1 cd = map (\<lambda>h. TreeResult h None) ?fs"
    by (rule priv_tree_file_only)
  have n: "names cd opts = map hname ?fs"
    unfolding names_def ft using assms by (simp add: priv_tree_file_only priv_flat_leaves)
  have tr: "tree cd opts = TreeResult cd (Some (map (\<lambda>h. TreeResult h None) ?fs))"
    by (simp add: tree_def ft priv_tree_file_only)
  have l: "list_entries b cd opts = List.map_filter (\<lambda>h. WebFsFileHandle_create b h None) ?fs"
    unfolding list_entries_def ft using assms
    by (auto simp: priv_tree_file_only priv_flat_leaves List.map_filter_def
          intro!: arg_cong[where f = "map _"] filter_cong map_cong)
  have g: "(\<forall>h \<in> set (dir_values cd). verifyPermission b h Read)
         \<longrightarrow> list_entries b cd opts = map WebFsFileHandle ?fs"
  proof
    assume a: "\<forall>h \<in> set (dir_values cd). verifyPermission b h Read"
    then have "\<forall>h \<in> set ?fs. WebFsFileHandle_create b h None = Some (WebFsFileHandle h)"
      by (simp add: WebFsFileHandle_create_def mode_or_default_def)
    then have "List.map_filter (\<lambda>h. WebFsFileHandle_create b h None) ?fs = map WebFsFileHandle ?fs"
      by (rule map_filter_all_Some)
    with l show "list_entries b cd opts = map WebFsFileHandle ?fs" by simp
  qed
  from t n tr l g show ?thesis by blast
qed

text \<open>An instance with depth 3: only \<open>a.txt\<close> is listed, \<open>sub/b.txt\<close> is not.\<close>

theorem file_only_direct_children_witness:
  "opt_file \<lparr>o_file = None, o_dir = Some False, o_depth = Some 3\<rparr>
   \<and> \<not> opt_dir \<lparr>o_file = None, o_dir = Some False, o_depth = Some 3\<rparr>
   \<and> names (this_handle (Directory ''root'' [File ''a.txt'', Directory ''sub'' [File ''b.txt'']]))
        \<lparr>o_file = None, o_dir = Some False, o_depth = Some 3\<rparr> = [''a.txt'']
   \<and> list_entries grant_all
        (this_handle (Directory ''root'' [File ''a.txt'', Directory ''sub'' [File ''b.txt'']]))
        \<lparr>o_file = None, o_dir = Some False, o_depth = Some 3\<rparr>
      = [WebFsFileHandle \<lparr>loc = [''a.txt''], ent = File ''a.txt''\<rparr>]"
  using file_only_direct_children[of "\<lparr>o_file = None, o_dir = Some False, o_depth = Some 3\<rparr>" 3
      "this_handle (Directory ''root'' [File ''a.txt'', Directory ''sub'' [File ''b.txt'']])" grant_all]
  by (simp add: opt_file_def opt_dir_def this_handle_def hkind_def hname_def
        verifyPermission_def grant_all_def WebFsFileHandle_create_def mode_or_default_def
        List.map_filter_def)

section \<open>Entries below a directory\<close>

lemma below_unfold:
  "below cd = concat (map (\<lambda>c. ([hname c], c) # map (\<lambda>(ns, h). (hname c # ns, h)) (below c))
                          (dir_values cd))"
  by (cases "ent cd") (simp_all add: below_def dir_values_def hname_def comp_def)

lemma below_iff:
  "(ns, h) \<in> set (below cd) \<longleftrightarrow>
     (\<exists>c \<in> set (dir_values cd).
        (ns = [hname c] \<and> h = c) \<or> (\<exists>ns'. ns = hname c # ns' \<and> (ns', h) \<in> set (below c)))"
  by (subst below_unfold) auto

lemma below_nonempty: "(ns, h) \<in> set (below cd) \<Longrightarrow> ns \<noteq> []"
  by (subst (asm) below_iff) auto

lemma below_file: "hkind c = KFile \<Longrightarrow> below c = []"
  by (cases "ent c") (simp_all add: below_def hkind_def)

lemma below_loc: "(ns, h) \<in> set (below_entry l e) \<Longrightarrow> loc h = l @ ns"
proof (induction l e arbitrary: ns h rule: below_entry.induct)
  case (1 l n)
  then show ?case by simp
next
  case (2 l n cs)
  from "2.prems" obtain c where c: "c \<in> set cs"
    and d: "(ns = [ename c] \<and> h = \<lparr>loc = l @ [ename c], ent = c\<rparr>)
            \<or> (\<exists>ns'. ns = ename c # ns' \<and> (ns', h) \<in> set (below_entry (l @ [ename c]) c))"
    by auto
  from d show ?case
  proof
    assume "ns = [ename c] \<and> h = \<lparr>loc = l @ [ename c], ent = c\<rparr>"
    then show ?thesis by simp
  next
    assume "\<exists>ns'. ns = ename c # ns' \<and> (ns', h) \<in> set (below_entry (l @ [ename c]) c)"
    then obtain ns' where ns: "ns = ename c # ns'"
      and m: "(ns', h) \<in> set (below_entry (l @ [ename c]) c)" by blast
    from "2.IH"[OF c m] ns show ?thesis by simp
  qed
qed

lemma join_str_Cons: "ns \<noteq> [] \<Longrightarrow> join_str s (n # ns) = n @ s @ join_str s ns"
  by (cases ns) simp_all

lemma in_files_where:
  "h \<in> set (files_where Q A cd) \<longleftrightarrow>
     (\<exists>ns. (ns, h) \<in> set (below cd) \<and> hkind h = KFile \<and> A (join_str ''/'' ns) \<and> Q (butlast ns))"
  by (auto simp: files_where_def image_iff)

lemma files_where_unfold:
  "set (files_where Q A cd) =
     {c \<in> set (dir_values cd). hkind c = KFile \<and> A (hname c) \<and> Q []}
     \<union> (\<Union>c \<in> set (priv_filterEntry FDir (dir_values cd)).
           set (files_where (\<lambda>ds. Q (hname c # ds)) (\<lambda>s. A (hname c @ ''/'' @ s)) c))"
  (is "?L = ?R1 \<union> ?R2")
proof (rule set_eqI)
  fix h
  show "h \<in> ?L \<longleftrightarrow> h \<in> ?R1 \<union> ?R2"
  proof
    assume "h \<in> ?L"
    then obtain ns where m: "(ns, h) \<in> set (below cd)" and k: "hkind h = KFile"
      and a: "A (join_str ''/'' ns)" and q: "Q (butlast ns)"
      by (auto simp: in_files_where)
    from m obtain c where c: "c \<in> set (dir_values cd)"
      and d: "(ns = [hname c] \<and> h = c) \<or> (\<exists>ns'. ns = hname c # ns' \<and> (ns', h) \<in> set (below c))"
      by (subst (asm) below_iff) blast
    from d show "h \<in> ?R1 \<union> ?R2"
    proof
      assume "ns = [hname c] \<and> h = c"
      with c k a q show ?thesis by auto
    next
      assume "\<exists>ns'. ns = hname c # ns' \<and> (ns', h) \<in> set (below c)"
      then obtain ns' where ns: "ns = hname c # ns'" and m': "(ns', h) \<in> set (below c)" by blast
      from m' have ne: "ns' \<noteq> []" by (rule below_nonempty)
      from m' have "hkind c \<noteq> KFile" by (auto simp: below_file)
      then have "hkind c = KDirectory" by (cases "hkind c") auto
      with c have cd: "c \<in> set (priv_filterEntry FDir (dir_values cd))"
        by (simp add: priv_filterEntry_def)
      from a ns ne have "A (hname c @ ''/'' @ join_str ''/'' ns')" by (simp add: join_str_Cons)
      moreover from q ns ne have "Q (hname c # butlast ns')" by simp
      ultimately have "h \<in> set (files_where (\<lambda>ds. Q (hname c # ds)) (\<lambda>s. A (hname c @ ''/'' @ s)) c)"
        using m' k by (auto simp: in_files_where)
      with cd show ?thesis by blast
    qed
  next
    assume "h \<in> ?R1 \<union> ?R2"
    then show "h \<in> ?L"
    proof
      assume "h \<in> ?R1"
      then have c: "h \<in> set (dir_values cd)" and k: "hkind h = KFile" and a: "A (hname h)" and q: "Q []"
        by auto
      from c have "([hname h], h) \<in> set (below cd)" by (subst below_iff) auto
      with k a q show ?thesis by (auto simp: in_files_where)
    next
      assume "h \<in> ?R2"
      then obtain c ns' where c: "c \<in> set (priv_filterEntry FDir (dir_values cd))"
        and m': "(ns', h) \<in> set (below c)" and k: "hkind h = KFile"
        and a: "A (hname c @ ''/'' @ join_str ''/'' ns')" and q: "Q (hname c # butlast ns')"
        by (auto simp: in_files_where)
      from m' have ne: "ns' \<noteq> []" by (rule below_nonempty)
      from c have c': "c \<in> set (dir_values cd)" by (auto simp: priv_filterEntry_def)
      with m' have "(hname c # ns', h) \<in> set (below cd)" by (subst below_iff) auto
      moreover from a ne have "A (join_str ''/'' (hname c # ns'))" by (simp add: join_str_Cons)
      moreover from q ne have "Q (butlast (hname c # ns'))" by simp
      ultimately show ?thesis using k by (auto simp: in_files_where)
    qed
  qed
qed

section \<open>What the glob engine finds\<close>

lemma collect_all_Inr:
  "(\<forall>d \<in> set ds. \<exists>r. f d = Inr r \<and> set (found r) = S d) \<Longrightarrow>
   \<exists>r. collect (map f ds) = Inr r \<and> set (found r) = (\<Union>d \<in> set ds. S d)"
proof (induction ds)
  case Nil
  show ?case by simp
next
  case (Cons d ds)
  from Cons.prems obtain r where r: "f d = Inr r" "set (found r) = S d" by auto
  from Cons.prems have "\<forall>d \<in> set ds. \<exists>r. f d = Inr r \<and> set (found r) = S d" by simp
  from Cons.IH[OF this] obtain r' where r': "collect (map f ds) = Inr r'"
    "set (found r') = (\<Union>d \<in> set ds. S d)" by blast
  from r r' show ?case by simp
qed

lemma files_where_never: "set (files_where (\<lambda>ds. False) A c) = {}"
  by (simp add: files_where_def)

lemma set_filterEntry_FFile:
  "set (priv_filterEntry FFile es) = {c \<in> set es. hkind c = KFile}"
  by (auto simp: priv_filterEntry_def)

lemma filterE_answers:
  "(\<forall>x \<in> set xs. \<exists>b. p x = Inr b) \<Longrightarrow> filterE p xs = Inr (filter (\<lambda>x. p x = Inr True) xs)"
  by (induction xs) auto

lemma glob_engine_found:
  "i < length ps \<Longrightarrow> answers M (join_str ''/'' ps) \<Longrightarrow>
   (\<forall>p \<in> set (butlast ps). p \<noteq> ''**'' \<longrightarrow> answers M p) \<Longrightarrow>
   \<exists>r. priv_glob M ps i cd path = Inr r
     \<and> set (found r)
        = set (files_where (descends M ps i)
                 (\<lambda>s. M (path @ s) (join_str ''/'' ps) = Inr True) cd)"
proof (induction M ps i cd path rule: priv_glob.induct)
  case (1 M ps i cd path)
  let ?pat = "join_str ''/'' ps"
  let ?direct = "{c \<in> set (dir_values cd). hkind c = KFile \<and> M (path @ hname c) ?pat = Inr True}"
  let ?dirs = "priv_filterEntry FDir (dir_values cd)"
  note ilt = "1.prems"(1) and apat = "1.prems"(2) and asegs = "1.prems"(3)
  have lastidx: "int (nat (int (length ps) - 1)) = int (length ps) - 1"
    using ilt by (cases ps) simp_all
  have files: "filterE (\<lambda>entry. M (path @ hname entry) ?pat) (priv_filterEntry FFile (dir_values cd))
      = Inr (filter (\<lambda>entry. M (path @ hname entry) ?pat = Inr True)
               (priv_filterEntry FFile (dir_values cd)))"
    using apat by (intro filterE_answers) (simp add: answers_def)
  have r0: "priv_glob M ps (nat (int (length ps) - 1)) cd path
      = Inr \<lparr>enumerated = [cd],
             found = filter (\<lambda>entry. M (path @ hname entry) ?pat = Inr True)
                       (priv_filterEntry FFile (dir_values cd))\<rparr>"
    by (simp add: priv_glob_last[OF lastidx] files del: priv_glob.simps)
  consider (last) "int i = int (length ps) - 1"
    | (star) "int i \<noteq> int (length ps) - 1" "ps ! i = ''**''"
    | (seg) "int i \<noteq> int (length ps) - 1" "ps ! i \<noteq> ''**''"
    by blast
  then show ?case
  proof cases
    case last
    have "set (files_where (descends M ps i) (\<lambda>s. M (path @ s) ?pat = Inr True) cd) = ?direct"
      by (subst files_where_unfold) (simp add: last files_where_never)
    with last show ?thesis
      by (simp add: priv_glob_last files set_filterEntry_FFile del: priv_glob.simps)
  next
    case star
    have ih: "\<forall>d \<in> set ?dirs. \<exists>r. priv_glob M ps i d (path @ hname d @ ''/'') = Inr r
        \<and> set (found r) = set (files_where (descends M ps i)
                                  (\<lambda>s. M ((path @ hname d @ ''/'') @ s) ?pat = Inr True) d)"
    proof
      fix d assume d: "d \<in> set ?dirs"
      from star ilt have c: "i < length ps \<and> ps ! i = ''**''" by simp
      from "1.IH"(2)[OF refl refl refl refl star(1) c r0 d ilt apat asegs]
      show "\<exists>r. priv_glob M ps i d (path @ hname d @ ''/'') = Inr r
        \<and> set (found r) = set (files_where (descends M ps i)
                                  (\<lambda>s. M ((path @ hname d @ ''/'') @ s) ?pat = Inr True) d)" .
    qed
    from collect_all_Inr[OF ih] obtain r where
      r: "collect (map (\<lambda>dir. priv_glob M ps i dir (path @ hname dir @ ''/'')) ?dirs) = Inr r"
      and fr: "set (found r) = (\<Union>d \<in> set ?dirs. set (files_where (descends M ps i)
                                  (\<lambda>s. M ((path @ hname d @ ''/'') @ s) ?pat = Inr True) d))"
      by blast
    have "set (files_where (descends M ps i) (\<lambda>s. M (path @ s) ?pat = Inr True) cd)
        = ?direct \<union> (\<Union>d \<in> set ?dirs. set (files_where (descends M ps i)
                                  (\<lambda>s. M ((path @ hname d @ ''/'') @ s) ?pat = Inr True) d))"
      using star ilt by (subst files_where_unfold) simp
    with star ilt r0 r fr show ?thesis
      by (simp add: priv_glob_star set_filterEntry_FFile del: priv_glob.simps)
  next
    case seg
    let ?mdirs = "filter (\<lambda>entry. M (hname entry) (ps ! i) = Inr True) ?dirs"
    from seg ilt have lt: "i + 1 < length ps" by linarith
    then have "ps ! i \<in> set (butlast ps)"
      by (metis One_nat_def add.commute in_set_conv_nth length_butlast less_diff_conv
            nth_butlast plus_1_eq_Suc)
    with asegs seg have aseg: "answers M (ps ! i)" by blast
    have fe: "filterE (\<lambda>entry. M (hname entry) (ps ! i)) ?dirs = Inr ?mdirs"
      using aseg by (intro filterE_answers) (simp add: answers_def)
    have ih: "\<forall>d \<in> set ?mdirs. \<exists>r. priv_glob M ps (i + 1) d (path @ hname d @ ''/'') = Inr r
        \<and> set (found r) = set (files_where (descends M ps (i + 1))
                                  (\<lambda>s. M ((path @ hname d @ ''/'') @ s) ?pat = Inr True) d)"
    proof
      fix d assume d: "d \<in> set ?mdirs"
      from seg have c: "\<not> (i < length ps \<and> ps ! i = ''**'')" by simp
      from "1.IH"(3)[OF refl refl refl refl seg(1) c ilt fe d lt apat asegs]
      show "\<exists>r. priv_glob M ps (i + 1) d (path @ hname d @ ''/'') = Inr r
        \<and> set (found r) = set (files_where (descends M ps (i + 1))
                                  (\<lambda>s. M ((path @ hname d @ ''/'') @ s) ?pat = Inr True) d)" .
    qed
    from collect_all_Inr[OF ih] obtain r where
      r: "collect (map (\<lambda>dir. priv_glob M ps (i + 1) dir (path @ hname dir @ ''/'')) ?mdirs) = Inr r"
      and fr: "set (found r) = (\<Union>d \<in> set ?mdirs. set (files_where (descends M ps (i + 1))
                                  (\<lambda>s. M ((path @ hname d @ ''/'') @ s) ?pat = Inr True) d))"
      by blast
    have "\<And>d. set (files_where (\<lambda>ds. descends M ps i (hname d # ds))
                     (\<lambda>s. M (path @ hname d @ ''/'' @ s) ?pat = Inr True) d)
        = (if M (hname d) (ps ! i) = Inr True
           then set (files_where (descends M ps (i + 1))
                       (\<lambda>s. M ((path @ hname d @ ''/'') @ s) ?pat = Inr True) d)
           else {})"
      using seg ilt by (simp add: files_where_never)
    then have "set (files_where (descends M ps i) (\<lambda>s. M (path @ s) ?pat = Inr True) cd)
        = (\<Union>d \<in> set ?mdirs. set (files_where (descends M ps (i + 1))
                                  (\<lambda>s. M ((path @ hname d @ ''/'') @ s) ?pat = Inr True) d))"
      using seg ilt by (subst files_where_unfold) auto
    with seg ilt r fr fe show ?thesis
      by (simp add: priv_glob_seg del: priv_glob.simps)
  qed
qed

lemma split_str_nonempty: "split_str c s \<noteq> []"
  by (induction s) (auto split: list.splits)

lemma join_split: "join_str [c] (split_str c s) = s"
proof (induction s)
  case Nil
  show ?case by simp
next
  case (Cons x xs)
  show ?case
  proof (cases "x = c")
    case True
    with Cons show ?thesis
      by (cases "split_str c xs") (simp_all add: split_str_nonempty)
  next
    case False
    with Cons show ?thesis
      by (cases "split_str c xs"; cases "tl (split_str c xs)")
         (auto simp: split_str_nonempty)
  qed
qed

lemma below_this_loc: "(ns, h) \<in> set (below (this_handle fsroot)) \<Longrightarrow> loc h = ns"
  by (auto simp: below_def this_handle_def dest: below_loc)

lemma files_where_root:
  "set (files_where Q A (this_handle fsroot))
     = {h \<in> set (descendants (this_handle fsroot)).
          hkind h = KFile \<and> A (rel_path h) \<and> Q (butlast (loc h))}"
proof (rule set_eqI)
  fix h
  show "h \<in> set (files_where Q A (this_handle fsroot)) \<longleftrightarrow>
        h \<in> {h \<in> set (descendants (this_handle fsroot)).
               hkind h = KFile \<and> A (rel_path h) \<and> Q (butlast (loc h))}"
  proof
    assume "h \<in> set (files_where Q A (this_handle fsroot))"
    then obtain ns where m: "(ns, h) \<in> set (below (this_handle fsroot))"
      and r: "hkind h = KFile" "A (join_str ''/'' ns)" "Q (butlast ns)"
      by (auto simp: in_files_where)
    from m have "loc h = ns" by (rule below_this_loc)
    moreover from m have "h \<in> set (descendants (this_handle fsroot))"
      by (force simp: descendants_def)
    ultimately show "h \<in> {h \<in> set (descendants (this_handle fsroot)).
               hkind h = KFile \<and> A (rel_path h) \<and> Q (butlast (loc h))}"
      using r by (simp add: rel_path_def)
  next
    assume "h \<in> {h \<in> set (descendants (this_handle fsroot)).
               hkind h = KFile \<and> A (rel_path h) \<and> Q (butlast (loc h))}"
    then have d: "h \<in> set (descendants (this_handle fsroot))"
      and r: "hkind h = KFile" "A (rel_path h)" "Q (butlast (loc h))" by auto
    from d obtain ns where m: "(ns, h) \<in> set (below (this_handle fsroot))"
      by (auto simp: descendants_def)
    from m have "loc h = ns" by (rule below_this_loc)
    with m r show "h \<in> set (files_where Q A (this_handle fsroot))"
      by (auto simp: in_files_where rel_path_def)
  qed
qed

lemma wrap_found:
  "List.map_filter (\<lambda>entry. WebFsFileHandle_create b entry None) xs
     = map WebFsFileHandle (filter (\<lambda>h. verifyPermission b h Read) xs)"
  by (induction xs)
     (auto simp: List.map_filter_def WebFsFileHandle_create_def mode_or_default_def)

lemma glob_result:
  assumes "pattern \<noteq> ''''" and "answers M pattern"
    and "\<forall>p \<in> set (butlast (split_str CHR ''/'' pattern)). p \<noteq> ''**'' \<longrightarrow> answers M p"
  shows "\<exists>r fs. glob b M (this_handle fsroot) pattern = Inr r
     \<and> matches r = map WebFsFileHandle fs
     \<and> set fs = {h \<in> set (descendants (this_handle fsroot)).
                   hkind h = KFile \<and> verifyPermission b h Read \<and> M (rel_path h) pattern = Inr True
                   \<and> descends M (split_str CHR ''/'' pattern) 0 (butlast (loc h))}"
proof -
  let ?ps = "split_str CHR ''/'' pattern"
  have j: "join_str ''/'' ?ps = pattern" by (rule join_split)
  have pos: "0 < length ?ps" by (simp add: split_str_nonempty)
  from assms(2) j have a: "answers M (join_str ''/'' ?ps)" by simp
  from glob_engine_found[OF pos a assms(3), of "this_handle fsroot" "''''"]
  obtain r where r: "priv_glob M ?ps 0 (this_handle fsroot) '''' = Inr r"
    and f: "set (found r) = set (files_where (descends M ?ps 0)
                                  (\<lambda>s. M s (join_str ''/'' ?ps) = Inr True) (this_handle fsroot))"
    by auto
  let ?fs = "filter (\<lambda>h. verifyPermission b h Read) (found r)"
  have "glob b M (this_handle fsroot) pattern
      = Inr \<lparr>host_enumerations = enumerated r, matches = map WebFsFileHandle ?fs\<rparr>"
    using assms(1) r by (simp add: glob_def wrap_found)
  moreover have "set ?fs = {h \<in> set (descendants (this_handle fsroot)).
                   hkind h = KFile \<and> verifyPermission b h Read \<and> M (rel_path h) pattern = Inr True
                   \<and> descends M ?ps 0 (butlast (loc h))}"
    using f by (auto simp: files_where_root j)
  ultimately show ?thesis by force
qed


section \<open>Glob: the result as a set of files\<close>

lemma descends_head_star:
  "1 < length ps \<Longrightarrow> ps ! 0 = ''**'' \<Longrightarrow> descends M ps 0 ds"
  by (induction ds) auto

lemma ref_answers: "answers ref_isMatch p \<longleftrightarrow> p \<noteq> ''''"
  by (simp add: answers_def ref_isMatch_def)

text \<open>
  A throw of the matcher is not caught. The pattern \<open>/a.ts\<close> splits into an empty segment
  and \<open>a.ts\<close>; the empty segment is handed to the matcher for the first directory of the
  root, the matcher throws, and \<open>glob\<close> is rejected with that error.
\<close>

lemma glob_empty_segment_rejected:
  "glob grant_all ref_isMatch
     (this_handle (Directory ''root'' [Directory ''src'' [File ''a.ts''], File ''a.ts'']))
     ''/a.ts'' = Inl TypeError"
  by (simp add: glob_def priv_glob_seg this_handle_def priv_filterEntry_def hkind_def
        hname_def ref_isMatch_def del: priv_glob.simps)

text \<open>
  Claim C2, as amended. Take a non-empty pattern on which the matcher does not throw:
  neither on the whole pattern nor on any of its segments before the last, \<open>**\<close> apart
  (for micromatch: no segment before the last is empty). Then, for every directory and
  every broker, \<open>glob\<close> returns without an error, and the files it returns are exactly the
  file entries below the directory that pass the permission gate, whose \<open>/\<close>-joined path
  matches the unsplit pattern, and whose chain of directories is one the descent
  follows (\<open>descends\<close>): a directory at a segment other than \<open>**\<close> must match that segment
  by its own name, a segment \<open>**\<close> that is not the last one lets any number of
  directories through, and files are tested only in a directory reached at the last
  segment or at such a \<open>**\<close>. In particular, when the pattern has at least two segments
  and the first is \<open>**\<close>, the result is exactly the set of matching files.
\<close>

theorem glob_follows_descent:
  assumes "pattern \<noteq> ''''" and "answers M pattern"
    and "\<forall>p \<in> set (butlast (split_str CHR ''/'' pattern)). p \<noteq> ''**'' \<longrightarrow> answers M p"
  shows "\<exists>r fs. glob b M (this_handle fsroot) pattern = Inr r
     \<and> matches r = map WebFsFileHandle fs
     \<and> set fs = {h \<in> set (descendants (this_handle fsroot)).
                   hkind h = KFile \<and> verifyPermission b h Read \<and> M (rel_path h) pattern = Inr True
                   \<and> descends M (split_str CHR ''/'' pattern) 0 (butlast (loc h))}
     \<and> (1 < length (split_str CHR ''/'' pattern) \<and> split_str CHR ''/'' pattern ! 0 = ''**''
          \<longrightarrow> set fs = {h \<in> set (descendants (this_handle fsroot)).
                   hkind h = KFile \<and> verifyPermission b h Read
                   \<and> M (rel_path h) pattern = Inr True})"
proof -
  from glob_result[OF assms, of b fsroot] obtain r fs
    where r: "glob b M (this_handle fsroot) pattern = Inr r"
      and m: "matches r = map WebFsFileHandle fs"
      and s: "set fs = {h \<in> set (descendants (this_handle fsroot)).
                   hkind h = KFile \<and> verifyPermission b h Read \<and> M (rel_path h) pattern = Inr True
                   \<and> descends M (split_str CHR ''/'' pattern) 0 (butlast (loc h))}"
    by blast
  have "1 < length (split_str CHR ''/'' pattern) \<and> split_str CHR ''/'' pattern ! 0 = ''**''
          \<longrightarrow> set fs = {h \<in> set (descendants (this_handle fsroot)).
                   hkind h = KFile \<and> verifyPermission b h Read
                   \<and> M (rel_path h) pattern = Inr True}"
    using s by (auto simp: descends_head_star)
  with r m s show ?thesis by blast
qed

lemma readme_pattern_split:
  "split_str CHR ''/'' ''src/**/*.ts'' = [''src'', ''**'', ''*.ts'']"
  by simp

text \<open>
  An instance, the pattern \<open>src/**/*.ts\<close>: the reference matcher answers on the pattern
  and on its segment \<open>src\<close>, and the result is \<open>src/a.ts\<close> and \<open>src/lib/b.ts\<close>.
\<close>

theorem glob_follows_descent_witness:
  "''src/**/*.ts'' \<noteq> '''' \<and> answers ref_isMatch ''src/**/*.ts'' \<and> answers ref_isMatch ''src''
   \<and> (\<exists>r fs. glob grant_all ref_isMatch
          (this_handle (Directory ''root''
             [Directory ''src'' [File ''a.ts'', Directory ''lib'' [File ''b.ts''], File ''c.md''],
              File ''a.ts'']))
          ''src/**/*.ts'' = Inr r
        \<and> matches r = map WebFsFileHandle fs
        \<and> set fs = {\<lparr>loc = [''src'', ''a.ts''], ent = File ''a.ts''\<rparr>,
                     \<lparr>loc = [''src'', ''lib'', ''b.ts''], ent = File ''b.ts''\<rparr>})"
proof -
  let ?top = "Directory ''root''
             [Directory ''src'' [File ''a.ts'', Directory ''lib'' [File ''b.ts''], File ''c.md''],
              File ''a.ts'']"
  let ?fs = "[\<lparr>loc = [''src'', ''a.ts''], ent = File ''a.ts''\<rparr>,
              \<lparr>loc = [''src'', ''lib'', ''b.ts''], ent = File ''b.ts''\<rparr>]"
  have p: "''src/**/*.ts'' \<noteq> ''''" by simp
  have a: "answers ref_isMatch ''src/**/*.ts''" by (simp add: ref_answers)
  have a1: "answers ref_isMatch ''src''" by (simp add: ref_answers)
  have segs: "\<forall>p \<in> set (butlast (split_str CHR ''/'' ''src/**/*.ts'')).
                p \<noteq> ''**'' \<longrightarrow> answers ref_isMatch p"
    by (simp add: readme_pattern_split ref_answers)
  have "\<exists>r. glob grant_all ref_isMatch (this_handle ?top) ''src/**/*.ts'' = Inr r
          \<and> matches r = map WebFsFileHandle ?fs"
    by (simp add: glob_def readme_pattern_split priv_glob_last priv_glob_star priv_glob_seg
        this_handle_def priv_filterEntry_def hkind_def hname_def ref_isMatch_def ref_matches_def
        List.map_filter_def WebFsFileHandle_create_def verifyPermission_def
        grant_all_def mode_or_default_def del: priv_glob.simps)
  then obtain r where r: "glob grant_all ref_isMatch (this_handle ?top) ''src/**/*.ts'' = Inr r"
    "matches r = map WebFsFileHandle ?fs" by blast
  have "\<exists>r fs. glob grant_all ref_isMatch (this_handle ?top) ''src/**/*.ts'' = Inr r
        \<and> matches r = map WebFsFileHandle fs
        \<and> set fs = {\<lparr>loc = [''src'', ''a.ts''], ent = File ''a.ts''\<rparr>,
                     \<lparr>loc = [''src'', ''lib'', ''b.ts''], ent = File ''b.ts''\<rparr>}"
    by (rule exI[of _ r], rule exI[of _ ?fs]) (simp add: r)
  with glob_follows_descent[OF p a segs, of grant_all ?top] p a a1
  show ?thesis by simp
qed

text \<open>
  Claim C2 as stated fails: it promises every file whose path matches the pattern. For
  the pattern \<open>**\<close> the only segment is the last one, so only the files directly in the
  root are tested; \<open>sub/a.ts\<close> matches \<open>**\<close> and is not returned.
\<close>

theorem glob_trailing_globstar_counterexample:
  "glob grant_all ref_isMatch
     (this_handle (Directory ''root'' [Directory ''sub'' [File ''a.ts'']])) ''**''
     = Inr \<lparr>host_enumerations = [this_handle (Directory ''root'' [Directory ''sub'' [File ''a.ts'']])],
            matches = []\<rparr>
   \<and> \<lparr>loc = [''sub'', ''a.ts''], ent = File ''a.ts''\<rparr>
       \<in> set (descendants (this_handle (Directory ''root'' [Directory ''sub'' [File ''a.ts'']])))
   \<and> hkind \<lparr>loc = [''sub'', ''a.ts''], ent = File ''a.ts''\<rparr> = KFile
   \<and> rel_path \<lparr>loc = [''sub'', ''a.ts''], ent = File ''a.ts''\<rparr> = ''sub/a.ts''
   \<and> ref_isMatch ''sub/a.ts'' ''**'' = Inr True"
  by (simp add: glob_def priv_glob_last this_handle_def priv_filterEntry_def hkind_def
        hname_def ref_isMatch_def ref_matches_def List.map_filter_def descendants_def
        below_def rel_path_def del: priv_glob.simps)




end
